theory Spec2Isabelle
  imports Main
begin

section \<open>The RSS module: articles imported from a feed and read back\<close>

text \<open>
  The development follows the class \<open>RssModule\<close>: the derived text feature
  \<open>wordWithMostVowels\<close>, the feed validator \<open>isValidUrl\<close>, the import
  reconciler \<open>saveImportRequest\<close> with its caller \<open>import\<close>, the reader
  \<open>get\<close> and the helper \<open>runQuery\<close>. A JavaScript string is a sequence of
  code units; a \<^typ>\<open>char\<close> stands for one code unit, so \<^const>\<open>length\<close> is the
  \<open>.length\<close> of the source.
\<close>

subsection \<open>Word with most vowels\<close>

text \<open>\<open>const vowels = ['a', 'e', 'i', 'o', 'u', 'y']\<close>\<close>

definition vowels :: "char list" where
  "vowels = [CHR ''a'', CHR ''e'', CHR ''i'', CHR ''o'', CHR ''u'', CHR ''y'']"

text \<open>
  \<open>title.split(' ')\<close>: every single space separates, so the result is never empty,
  the empty string gives one empty word, and two spaces in a row give an empty
  word between them. No other character separates.
\<close>

fun split_sep :: "char \<Rightarrow> string \<Rightarrow> string list" where
  "split_sep c [] = [[]]"
| "split_sep c (x # xs) =
     (if x = c then [] # split_sep c xs
      else (case split_sep c xs of
              [] \<Rightarrow> [[x]]
            | w # ws \<Rightarrow> (x # w) # ws))"

text \<open>
  The inner loop \<open>for (let letter of word) if (vowels.includes(letter)) vowelCount++\<close>,
  with the counter as accumulator.
\<close>

fun count_letters :: "string \<Rightarrow> nat \<Rightarrow> nat" where
  "count_letters [] vowelCount = vowelCount"
| "count_letters (letter # rest) vowelCount =
     count_letters rest (if letter \<in> set vowels then vowelCount + 1 else vowelCount)"

text \<open>
  The outer loop over the words. The loop state is the pair of the source's two
  variables \<open>(wordWithMostVowels, mostVowels)\<close>.
\<close>

fun scan_words :: "string list \<Rightarrow> string \<times> nat \<Rightarrow> string \<times> nat" where
  "scan_words [] acc = acc"
| "scan_words (word # rest) (best, mostVowels) =
     (let vowelCount = count_letters word 0 in
      if vowelCount > mostVowels then scan_words rest (word, vowelCount)
      else if vowelCount = mostVowels \<and> length word > length best
        then scan_words rest (word, mostVowels)
      else scan_words rest (best, mostVowels))"

definition wordWithMostVowels :: "string \<Rightarrow> string" where
  "wordWithMostVowels title = fst (scan_words (split_sep CHR '' '' title) ([], 0))"

text \<open>
  The reading of the documentation that the code is compared with: the title cut at
  every run of white space (space, tab, line feed, vertical tab, form feed, carriage
  return), which leaves no empty word and no white space inside a word.
\<close>

definition whitespace :: "char list" where
  "whitespace = [CHR '' '', CHR 0x09, CHR 0x0A, CHR 0x0B, CHR 0x0C, CHR 0x0D]"

fun split_by :: "(char \<Rightarrow> bool) \<Rightarrow> string \<Rightarrow> string list" where
  "split_by p [] = [[]]"
| "split_by p (x # xs) =
     (if p x then [] # split_by p xs
      else (case split_by p xs of
              [] \<Rightarrow> [[x]]
            | w # ws \<Rightarrow> (x # w) # ws))"

definition words_ws :: "string \<Rightarrow> string list" where
  "words_ws title = filter (\<lambda>w. w \<noteq> []) (split_by (\<lambda>x. x \<in> set whitespace) title)"

text \<open>The number of vowels of a word, and the order the loop maximises.\<close>

definition vowel_count :: "string \<Rightarrow> nat" where
  "vowel_count w = length (filter (\<lambda>l. l \<in> set vowels) w)"

definition beats :: "string \<Rightarrow> string \<Rightarrow> bool" where
  "beats w b \<longleftrightarrow>
     vowel_count w > vowel_count b \<or>
     (vowel_count w = vowel_count b \<and> length w > length b)"

subsection \<open>Values, errors and the parsed feed\<close>

text \<open>
  The argument of \<open>isValidUrl\<close> has type \<open>any\<close>. The kinds of value that the two
  guards \<open>!url\<close> and \<open>typeof url !== 'string'\<close> tell apart are kept; numbers are
  the integers, objects carry no content.
\<close>

datatype jsval =
    JUndefined
  | JNull
  | JBoolean bool
  | JNumber int
  | JString string
  | JObject

fun truthy :: "jsval \<Rightarrow> bool" where
  "truthy JUndefined = False"
| "truthy JNull = False"
| "truthy (JBoolean b) = b"
| "truthy (JNumber n) = (n \<noteq> 0)"
| "truthy (JString s) = (s \<noteq> [])"
| "truthy JObject = True"

fun typeof :: "jsval \<Rightarrow> string" where
  "typeof JUndefined = ''undefined''"
| "typeof JNull = ''object''"
| "typeof (JBoolean b) = ''boolean''"
| "typeof (JNumber n) = ''number''"
| "typeof (JString s) = ''string''"
| "typeof JObject = ''object''"

text \<open>
  Everything the module throws or sees thrown: the \<open>TypeError\<close> of \<open>new URL\<close>,
  the error of \<open>import\<close> for a missing or unsupported URL, a rejection of
  \<open>parser.parseURL\<close>, the error of \<open>saveImportRequest\<close> for a result without
  items, and a database error with its SQLSTATE code (\<open>error.code\<close>).
\<close>

datatype error =
    UrlTypeError
  | InvalidUrlError
  | FetchError
  | NoItemsError
  | PgError string

fun error_code :: "error \<Rightarrow> string option" where
  "error_code (PgError c) = Some c"
| "error_code _ = None"

text \<open>
  A parsed entry is an object with string properties (\<open>guid\<close>, \<open>title\<close>,
  \<open>contentSnippet\<close>, \<open>pubDate\<close>, \<open>link\<close>, ...), read by name because the
  primary key is configurable, and the optional \<open>image.url\<close>. A property that
  is absent reads as \<open>undefined\<close>, here \<^const>\<open>None\<close>. The parsed result has
  the optional \<open>items\<close> and the optional feed-level \<open>image.url\<close>.
\<close>

record item =
  props :: "(string \<times> string) list"
  image_url :: "string option"

definition item_prop :: "item \<Rightarrow> string \<Rightarrow> string option" where
  "item_prop it name = map_of (props it) name"

record feed =
  items :: "item list option"
  feed_image_url :: "string option"

text \<open>
  What the module takes from outside: the \<open>URL\<close> constructor, which returns or
  throws; \<open>parser.parseURL\<close>, which resolves to a parsed result or rejects; and
  the database's reading of a text as a \<open>TIMESTAMP\<close>.
\<close>

record env =
  urlCtor :: "string \<Rightarrow> error + unit"
  parseURL :: "string \<Rightarrow> error + feed"
  timestampOk :: "string \<Rightarrow> bool"

subsection \<open>Feed validator\<close>

record rssModule =
  url :: string
  primaryKey :: string

definition supportedRssFeeds :: "string list" where
  "supportedRssFeeds =
     [''https://www.lemonde.fr/rss/une.xml'',
      ''https://www.theguardian.com/world/europe-news/rss'']"

definition isSupportedFeed :: "string \<Rightarrow> bool" where
  "isSupportedFeed feedUrl \<longleftrightarrow> feedUrl \<in> set supportedRssFeeds"

definition startsWith :: "string \<Rightarrow> string \<Rightarrow> bool" where
  "startsWith s p \<longleftrightarrow> take (length p) s = p"

text \<open>
  \<open>isValidUrl\<close> with its \<open>try\<close>/\<open>catch\<close> written out: the result is
  \<open>Inr\<close> of the boolean returned, \<open>Inl\<close> of an error that leaves the function.
  After the first guard the value is a string, read by \<open>string_of\<close>.
\<close>

fun string_of :: "jsval \<Rightarrow> string" where
  "string_of (JString s) = s"
| "string_of v = []"

definition isValidUrl :: "env \<Rightarrow> jsval \<Rightarrow> error + bool" where
  "isValidUrl E url' =
     (if \<not> truthy url' \<or> typeof url' \<noteq> ''string'' then Inr False
      else if \<not> startsWith (string_of url') ''http://'' \<and>
              \<not> startsWith (string_of url') ''https://'' then Inr False
      else (case urlCtor E (string_of url') of
              Inr u \<Rightarrow> Inr (isSupportedFeed (string_of url'))
            | Inl error \<Rightarrow> Inr False))"

text \<open>The constructor: the defaults \<open>url = ""\<close> and \<open>primaryKey = "guid"\<close>.\<close>

definition new_RssModule :: "env \<Rightarrow> string option \<Rightarrow> string option \<Rightarrow> rssModule" where
  "new_RssModule E url0 primaryKey0 =
     \<lparr> url = (case url0 of
                Some u \<Rightarrow> if u \<noteq> [] \<and> isValidUrl E (JString u) = Inr True then u else []
              | None \<Rightarrow> []),
       primaryKey = (case primaryKey0 of
                Some k \<Rightarrow> if k \<noteq> [] then k else ''guid''
              | None \<Rightarrow> ''guid'') \<rparr>"

subsection \<open>Storage\<close>

text \<open>
  The two tables of the migrations. \<open>articles\<close> has a serial \<open>id\<close>, a unique
  index on \<open>externalId\<close> (\<open>VARCHAR(500)\<close>), every column \<open>NOT NULL\<close>
  except \<open>mainPicture\<close>; \<open>imports\<close> has a serial \<open>id\<close>, \<open>importDate\<close>
  defaulting to \<open>now()\<close> and \<open>rawContent\<close>. A table is the list of its rows in
  insertion order, an update rewrites a row in place, and a timestamp is kept as
  the text given for it. \<open>rawContent\<close> holds \<open>JSON.stringify(results)\<close>, kept
  here as the result it serialises.
\<close>

record article =
  article_id :: nat
  externalId :: string
  importDate :: nat
  title :: string
  description :: string
  publicationDate :: string
  link :: string
  mainPicture :: "string option"

record import_record =
  import_id :: nat
  import_importDate :: nat
  rawContent :: feed

text \<open>
  The state that the module works on: the tables, their two sequences, the clock
  read by \<open>new Date()\<close> and \<open>now()\<close>, and the number of clients of the pool that
  have been handed out by \<open>pool.connect()\<close> and not yet given back by
  \<open>client.release()\<close>.
\<close>

record store =
  articles :: "article list"
  imports_table :: "import_record list"
  articles_id_seq :: nat
  imports_id_seq :: nat
  clock :: nat
  held :: nat

definition connect :: "store \<Rightarrow> store" where
  "connect st = st\<lparr>held := held st + 1\<rparr>"

definition release :: "store \<Rightarrow> store" where
  "release st = st\<lparr>held := held st - 1\<rparr>"

text \<open>
  A text stored in a \<open>VARCHAR(500)\<close> column is refused when it is longer than 500,
  unless all that exceeds 500 is spaces: then it is cut to 500.
\<close>

definition varchar500_ok :: "string \<Rightarrow> bool" where
  "varchar500_ok e \<longleftrightarrow> length e \<le> 500 \<or> list_all (\<lambda>c. c = CHR '' '') (drop 500 e)"

text \<open>
  \<open>INSERT INTO articles (externalId, importDate, title, description, publicationDate,
  link, mainPicture) VALUES ($1, ..., $7)\<close>. An \<open>undefined\<close> parameter is sent as
  \<open>NULL\<close>. A text that is no timestamp is refused when the parameters are bound
  (SQLSTATE 22007); then the row takes its \<open>id\<close> from the sequence, which is not
  given back on failure; an \<open>externalId\<close> too long for its column is refused
  (22001), a \<open>NULL\<close> in a \<open>NOT NULL\<close> column is refused (23502), and last the
  unique index refuses an \<open>externalId\<close> that a row already has (23505). Refusals
  that come from the server rather than from the schema (a character that the
  encoding does not admit, a lost connection, an exhausted pool) are not modelled.
\<close>

definition insert_articles ::
  "env \<Rightarrow> string option \<Rightarrow> nat \<Rightarrow> string option \<Rightarrow> string option \<Rightarrow> string option \<Rightarrow>
   string option \<Rightarrow> string option \<Rightarrow> store \<Rightarrow> (error + article list) \<times> store" where
  "insert_articles E p1 p2 p3 p4 p5 p6 p7 st =
     (if (case p5 of Some d \<Rightarrow> \<not> timestampOk E d | None \<Rightarrow> False)
        then (Inl (PgError ''22007''), st)
      else
        (let st1 = st\<lparr>articles_id_seq := articles_id_seq st + 1\<rparr> in
         if (case p1 of Some e \<Rightarrow> \<not> varchar500_ok e | None \<Rightarrow> False)
           then (Inl (PgError ''22001''), st1)
         else
           (case (p1, p3, p4, p5, p6) of
              (Some e, Some t, Some d, Some p, Some l) \<Rightarrow>
                if take 500 e \<in> set (map externalId (articles st))
                  then (Inl (PgError ''23505''), st1)
                else
                  (Inr [],
                   st1\<lparr>articles := articles st @
                     [\<lparr> article_id = articles_id_seq st, externalId = take 500 e, importDate = p2,
                        title = t, description = d, publicationDate = p, link = l,
                        mainPicture = p7 \<rparr>]\<rparr>)
            | _ \<Rightarrow> (Inl (PgError ''23502''), st1))))"

text \<open>
  \<open>UPDATE articles SET title = $1, description = $2, publicationDate = $3, link = $4,
  mainPicture = $5 WHERE externalId = $6\<close>. The timestamp is checked when the
  parameters are bound; a \<open>NULL\<close> for a \<open>NOT NULL\<close> column is refused when a row
  is rewritten, so only if some row matches.
\<close>

definition update_articles ::
  "env \<Rightarrow> string option \<Rightarrow> string option \<Rightarrow> string option \<Rightarrow> string option \<Rightarrow>
   string option \<Rightarrow> string option \<Rightarrow> store \<Rightarrow> (error + article list) \<times> store" where
  "update_articles E p1 p2 p3 p4 p5 p6 st =
     (if (case p3 of Some d \<Rightarrow> \<not> timestampOk E d | None \<Rightarrow> False)
        then (Inl (PgError ''22007''), st)
      else if \<not> (\<exists>a \<in> set (articles st). Some (externalId a) = p6)
        then (Inr [], st)
      else
        (case (p1, p2, p3, p4) of
           (Some t, Some d, Some p, Some l) \<Rightarrow>
             (Inr [],
              st\<lparr>articles :=
                map (\<lambda>a. if Some (externalId a) = p6
                          then a\<lparr>title := t, description := d, publicationDate := p,
                                 link := l, mainPicture := p5\<rparr>
                          else a)
                    (articles st)\<rparr>)
         | _ \<Rightarrow> (Inl (PgError ''23502''), st)))"

text \<open>\<open>INSERT INTO imports (rawContent) VALUES ($1)\<close> and \<open>SELECT * FROM articles\<close>.\<close>

definition insert_imports :: "feed \<Rightarrow> store \<Rightarrow> (error + article list) \<times> store" where
  "insert_imports p1 st =
     (Inr [],
      st\<lparr>imports_table := imports_table st @
            [\<lparr> import_id = imports_id_seq st, import_importDate = clock st,
               rawContent = p1 \<rparr>],
         imports_id_seq := imports_id_seq st + 1\<rparr>)"

definition select_articles :: "store \<Rightarrow> (error + article list) \<times> store" where
  "select_articles st = (Inr (articles st), st)"

subsection \<open>Running a query, saving an import, importing, reading\<close>

text \<open>
  \<open>runQuery\<close>: a client is taken from the pool, the query is run on it, and the
  \<open>finally\<close> block releases the client whether the query returned its rows or
  threw.
\<close>

definition runQuery ::
  "(store \<Rightarrow> (error + article list) \<times> store) \<Rightarrow> store \<Rightarrow> (error + article list) \<times> store" where
  "runQuery query st =
     (let client = connect st in
      case query client of
        (Inr rows, st') \<Rightarrow> (Inr rows, release st')
      | (Inl error, st') \<Rightarrow> (Inl error, release st'))"

text \<open>
  The body of the loop of \<open>saveImportRequest\<close> for one entry, on the client that
  the loop holds: the insert, and in its \<open>catch\<close> the update when the code of the
  error is \<open>23505\<close>, the error thrown again otherwise. An error of the update
  leaves the \<open>catch\<close> block as it is.
\<close>

definition save_item :: "env \<Rightarrow> rssModule \<Rightarrow> feed \<Rightarrow> item \<Rightarrow> store \<Rightarrow> (error + unit) \<times> store" where
  "save_item E self results it st =
     (case insert_articles E
             (item_prop it (primaryKey self)) (clock st) (item_prop it ''title'')
             (item_prop it ''contentSnippet'') (item_prop it ''pubDate'') (item_prop it ''link'')
             (Some (case image_url it of
                      Some u \<Rightarrow> u
                    | None \<Rightarrow> (case feed_image_url results of Some u \<Rightarrow> u | None \<Rightarrow> [])))
             st of
        (Inr rows, st') \<Rightarrow> (Inr (), st')
      | (Inl error, st') \<Rightarrow>
          if error_code error = Some ''23505'' then
            (case update_articles E
                    (item_prop it ''title'') (item_prop it ''contentSnippet'')
                    (item_prop it ''pubDate'') (item_prop it ''link'')
                    (Some (case image_url it of Some u \<Rightarrow> u | None \<Rightarrow> []))
                    (item_prop it (primaryKey self))
                    st' of
               (Inr rows, st'') \<Rightarrow> (Inr (), st'')
             | (Inl error', st'') \<Rightarrow> (Inl error', st''))
          else (Inl error, st'))"

fun save_items :: "env \<Rightarrow> rssModule \<Rightarrow> feed \<Rightarrow> item list \<Rightarrow> store \<Rightarrow> (error + unit) \<times> store" where
  "save_items E self results [] st = (Inr (), st)"
| "save_items E self results (it # rest) st =
     (case save_item E self results it st of
        (Inr u, st') \<Rightarrow> save_items E self results rest st'
      | (Inl error, st') \<Rightarrow> (Inl error, st'))"

text \<open>
  \<open>saveImportRequest\<close>: the ledger row through \<open>runQuery\<close>, the error for a
  result without items, then one client for all the entries. The client is
  released by the statement after the loop, which an error thrown in the loop does
  not reach.
\<close>

definition saveImportRequest :: "env \<Rightarrow> rssModule \<Rightarrow> feed \<Rightarrow> store \<Rightarrow> (error + feed) \<times> store" where
  "saveImportRequest E self results st =
     (case runQuery (insert_imports results) st of
        (Inl error, st1) \<Rightarrow> (Inl error, st1)
      | (Inr rows, st1) \<Rightarrow>
          (case items results of
             None \<Rightarrow> (Inl NoItemsError, st1)
           | Some its \<Rightarrow>
               (let client = connect st1 in
                case save_items E self results its client of
                  (Inl error, st2) \<Rightarrow> (Inl error, st2)
                | (Inr u, st2) \<Rightarrow> (Inr results, release st2))))"

text \<open>
  \<open>import\<close>: \<open>url || this.url\<close>, the validation, the fetch, the preview when
  \<open>save\<close> is false. The call of \<open>saveImportRequest\<close> stands in a \<open>try\<close> whose
  \<open>catch\<close> is empty and whose \<open>finally\<close> returns the parsed result, and the
  promise it returns is not awaited: whatever the save does, \<open>import\<close> returns
  the parsed result. The state returned is the one the save leaves when it has run
  to its end.
\<close>

definition "import" :: "env \<Rightarrow> rssModule \<Rightarrow> string option \<Rightarrow> bool \<Rightarrow> store \<Rightarrow> (error + feed) \<times> store" where
  "import E self url0 save st =
     (let url1 = (case url0 of
                    Some u \<Rightarrow> if u \<noteq> [] then u else url self
                  | None \<Rightarrow> url self) in
      case isValidUrl E (JString url1) of
        Inl error \<Rightarrow> (Inl error, st)
      | Inr valid \<Rightarrow>
          if \<not> valid then (Inl InvalidUrlError, st)
          else
            (case parseURL E url1 of
               Inl error \<Rightarrow> (Inl error, st)
             | Inr results \<Rightarrow>
                 if \<not> save then (Inr results, st)
                 else
                   (case saveImportRequest E self results st of
                      (saved, st') \<Rightarrow> (Inr results, st'))))"

text \<open>
  \<open>get\<close>: all the articles, each with the property \<open>wordwithmostvowels\<close>
  computed from its title.
\<close>

definition get :: "store \<Rightarrow> (error + (article \<times> string) list) \<times> store" where
  "get st =
     (case runQuery select_articles st of
        (Inl e, st') \<Rightarrow> (Inl e, st')
      | (Inr rows, st') \<Rightarrow>
          (Inr (map (\<lambda>row. (row, wordWithMostVowels (title row))) rows), st'))"

text \<open>
  The main picture as the documentation resolves it: the image of the entry, else
  the image of the feed, else the empty string.
\<close>

definition resolved_picture :: "feed \<Rightarrow> item \<Rightarrow> string" where
  "resolved_picture results it =
     (case image_url it of
        Some u \<Rightarrow> u
      | None \<Rightarrow> (case feed_image_url results of Some u \<Rightarrow> u | None \<Rightarrow> []))"

definition unique_externalId :: "store \<Rightarrow> bool" where
  "unique_externalId st \<longleftrightarrow> distinct (map externalId (articles st))"

subsection \<open>Notions used in the statements\<close>

text \<open>
  An entry passes the checks of the columns when its key is present and fits its
  column, its publication date is present and reads as a timestamp, and its title,
  snippet and link are present: the insert of such an entry can only fail on the
  unique index.
\<close>

definition item_ok :: "env \<Rightarrow> rssModule \<Rightarrow> item \<Rightarrow> bool" where
  "item_ok E self it \<longleftrightarrow>
     (case item_prop it ''pubDate'' of Some d \<Rightarrow> timestampOk E d | None \<Rightarrow> False) \<and>
     (case item_prop it (primaryKey self) of Some e \<Rightarrow> varchar500_ok e | None \<Rightarrow> False) \<and>
     item_prop it ''title'' \<noteq> None \<and>
     item_prop it ''contentSnippet'' \<noteq> None \<and>
     item_prop it ''link'' \<noteq> None"

definition externalIds :: "store \<Rightarrow> string list" where
  "externalIds st = map externalId (articles st)"

subsection \<open>Example data\<close>

text \<open>
  An environment whose \<open>URL\<close> constructor refuses a string with a space, whose
  database refuses the empty text as a timestamp, and whose parser returns one feed
  for each of the two supported addresses: for the first a feed with a feed-level
  image and two entries, the first without an image of its own; for the second a
  feed whose second entry has no title.
\<close>

definition entry1 :: item where
  "entry1 = \<lparr> props = [(''guid'', ''g1''), (''title'', ''Une idee''), (''contentSnippet'', ''s1''),
                        (''pubDate'', ''2023-03-01''), (''link'', ''https://l/1'')],
              image_url = None \<rparr>"

definition entry2 :: item where
  "entry2 = \<lparr> props = [(''guid'', ''g2''), (''title'', ''Deux mots''), (''contentSnippet'', ''s2''),
                        (''pubDate'', ''2023-03-02''), (''link'', ''https://l/2'')],
              image_url = Some ''https://i/2'' \<rparr>"

definition entry_untitled :: item where
  "entry_untitled = \<lparr> props = [(''guid'', ''g3''), (''contentSnippet'', ''s3''),
                        (''pubDate'', ''2023-03-03''), (''link'', ''https://l/3'')],
              image_url = None \<rparr>"

definition feed_good :: feed where
  "feed_good = \<lparr> items = Some [entry1, entry2], feed_image_url = Some ''https://f/img'' \<rparr>"

definition feed_untitled :: feed where
  "feed_untitled = \<lparr> items = Some [entry1, entry_untitled, entry2], feed_image_url = None \<rparr>"

definition env0 :: env where
  "env0 = \<lparr> urlCtor = (\<lambda>s. if CHR '' '' \<in> set s then Inl UrlTypeError else Inr ()),
             parseURL = (\<lambda>s. if s = ''https://www.lemonde.fr/rss/une.xml'' then Inr feed_good
                             else if s = ''https://www.theguardian.com/world/europe-news/rss''
                               then Inr feed_untitled
                             else Inl FetchError),
             timestampOk = (\<lambda>d. d \<noteq> []) \<rparr>"

definition self0 :: rssModule where
  "self0 = new_RssModule env0 None None"

definition store0 :: store where
  "store0 = \<lparr> articles = [], imports_table = [], articles_id_seq = 1, imports_id_seq = 1,
               clock = 0, held = 0 \<rparr>"

section \<open>Properties of the word with most vowels\<close>

lemma count_letters_eq: "count_letters w n = n + vowel_count w"
  by (induction w arbitrary: n) (auto simp: vowel_count_def)

lemma beats_trans: "beats a b \<Longrightarrow> beats b c \<Longrightarrow> beats a c"
  by (auto simp: beats_def)

lemma beats_not: "\<not> beats w b \<Longrightarrow> beats r b \<Longrightarrow> beats r w"
  by (auto simp: beats_def)

lemma split_sep_nonempty: "split_sep c xs \<noteq> []"
  by (induction xs) (auto split: list.splits)

text \<open>
  The loop started on a candidate \<open>b\<close> with its own count ends on the first word
  of \<open>b # ws\<close> that no other word beats: it beats every word before it, and no
  word after it beats it.
\<close>

lemma scan_words_spec:
  "scan_words ws (b, vowel_count b) = (r, m) \<Longrightarrow>
     m = vowel_count r \<and>
     (\<exists>pre post. b # ws = pre @ r # post \<and>
        (\<forall>w\<in>set pre. beats r w) \<and> (\<forall>w\<in>set post. \<not> beats w r))"
proof (induction ws arbitrary: b)
  case Nil
  then have "m = vowel_count r" "[b] = [] @ r # []" by auto
  then show ?case by (metis empty_iff list.set(1))
next
  case (Cons w ws)
  show ?case
  proof (cases "beats w b")
    case True
    then have "scan_words ws (w, vowel_count w) = (r, m)"
      using Cons.prems by (auto simp: beats_def count_letters_eq Let_def split: if_splits)
    from Cons.IH[OF this] obtain pre post where
      m: "m = vowel_count r" and e: "w # ws = pre @ r # post"
      and p: "\<forall>x\<in>set pre. beats r x" and q: "\<forall>x\<in>set post. \<not> beats x r" by blast
    have "beats r b"
    proof (cases pre)
      case Nil
      with e True show ?thesis by simp
    next
      case (Cons a as)
      with e p have "beats r w" by simp
      with True show ?thesis by (blast intro: beats_trans)
    qed
    with p have "\<forall>x\<in>set (b # pre). beats r x" by simp
    moreover have "b # w # ws = (b # pre) @ r # post" using e by simp
    ultimately show ?thesis using m q by blast
  next
    case False
    then have "scan_words ws (b, vowel_count b) = (r, m)"
      using Cons.prems by (auto simp: beats_def count_letters_eq Let_def split: if_splits)
    from Cons.IH[OF this] obtain pre post where
      m: "m = vowel_count r" and e: "b # ws = pre @ r # post"
      and p: "\<forall>x\<in>set pre. beats r x" and q: "\<forall>x\<in>set post. \<not> beats x r" by blast
    show ?thesis
    proof (cases pre)
      case Nil
      with e have "r = b" "post = ws" by simp_all
      with False q have "\<forall>x\<in>set (w # ws). \<not> beats x r" by simp
      moreover have "b # w # ws = [] @ r # (w # ws)" using \<open>r = b\<close> by simp
      ultimately show ?thesis using m by (metis empty_iff list.set(1))
    next
      case (Cons a as)
      with e have ab: "a = b" and ws: "ws = as @ r # post" by simp_all
      from p Cons ab have rb: "beats r b" by simp
      with False have "beats r w" by (rule beats_not)
      with p Cons ab have "\<forall>x\<in>set (b # w # as). beats r x" by simp
      moreover have "b # w # ws = (b # w # as) @ r # post" using ws by simp
      ultimately show ?thesis using m q by blast
    qed
  qed
qed

lemma wordWithMostVowels_position:
  "\<exists>pre post. split_sep CHR '' '' t = pre @ wordWithMostVowels t # post \<and>
       (\<forall>w\<in>set pre. beats (wordWithMostVowels t) w) \<and>
       (\<forall>w\<in>set post. \<not> beats w (wordWithMostVowels t))"
proof -
  define ws where "ws = split_sep CHR '' '' t"
  define r where "r = wordWithMostVowels t"
  obtain r' m where s: "scan_words ws ([], vowel_count []) = (r', m)" by fastforce
  then have "r' = r" by (simp add: r_def wordWithMostVowels_def ws_def vowel_count_def)
  with scan_words_spec[OF s] obtain pre post where
      e: "[] # ws = pre @ r # post"
      and p: "\<forall>x\<in>set pre. beats r x" and q: "\<forall>x\<in>set post. \<not> beats x r" by blast
  have "\<exists>pre post. ws = pre @ r # post \<and>
          (\<forall>w\<in>set pre. beats r w) \<and> (\<forall>w\<in>set post. \<not> beats w r)"
  proof (cases pre)
    case Nil
    with e have r: "r = []" and post: "post = ws" by simp_all
    have "ws \<noteq> []" by (simp add: ws_def split_sep_nonempty)
    then obtain w ws' where ws: "ws = w # ws'" by (cases ws) auto
    with q post r have "\<not> beats w []" by simp
    then have "w = []" by (auto simp: beats_def vowel_count_def)
    with ws have "ws = [] @ r # ws'" by (simp add: r)
    moreover have "\<forall>x\<in>set ws'. \<not> beats x r" using q post ws by simp
    ultimately show ?thesis by (metis empty_iff list.set(1))
  next
    case (Cons a as)
    with e have "ws = as @ r # post" by simp
    moreover have "\<forall>x\<in>set as. beats r x" using p Cons by simp
    ultimately show ?thesis using q by blast
  qed
  then show ?thesis by (simp add: ws_def r_def)
qed

text \<open>
  C2, as amended. The title is cut at every single space (and at nothing else); the
  vowels counted in a word are its letters among the lower-case a, e, i, o, u, y; the
  word returned is a word of the title that has more vowels, or as many vowels and
  more letters, than every word before it, and that no word after it exceeds in
  this way. So it has the highest count, among the words of that count the greatest
  length, and among those it is the first. The empty title gives the empty string.
\<close>

theorem wordWithMostVowels_first_best:
  "(\<exists>pre post. split_sep CHR '' '' t = pre @ wordWithMostVowels t # post \<and>
       (\<forall>w\<in>set pre.
           vowel_count w < vowel_count (wordWithMostVowels t) \<or>
           (vowel_count w = vowel_count (wordWithMostVowels t) \<and>
            length w < length (wordWithMostVowels t))) \<and>
       (\<forall>w\<in>set post.
           vowel_count w < vowel_count (wordWithMostVowels t) \<or>
           (vowel_count w = vowel_count (wordWithMostVowels t) \<and>
            length w \<le> length (wordWithMostVowels t)))) \<and>
   (\<forall>w. vowel_count w = length (filter (\<lambda>l. l \<in> set ''aeiouy'') w)) \<and>
   wordWithMostVowels [] = []"
proof -
  obtain pre post where
    e: "split_sep CHR '' '' t = pre @ wordWithMostVowels t # post"
    and p: "\<forall>w\<in>set pre. beats (wordWithMostVowels t) w"
    and q: "\<forall>w\<in>set post. \<not> beats w (wordWithMostVowels t)"
    using wordWithMostVowels_position by blast
  from p have "\<forall>w\<in>set pre.
           vowel_count w < vowel_count (wordWithMostVowels t) \<or>
           (vowel_count w = vowel_count (wordWithMostVowels t) \<and>
            length w < length (wordWithMostVowels t))"
    by (auto simp: beats_def)
  moreover from q have "\<forall>w\<in>set post.
           vowel_count w < vowel_count (wordWithMostVowels t) \<or>
           (vowel_count w = vowel_count (wordWithMostVowels t) \<and>
            length w \<le> length (wordWithMostVowels t))"
    by (auto simp: beats_def)
  moreover have "\<forall>w. vowel_count w = length (filter (\<lambda>l. l \<in> set ''aeiouy'') w)"
    by (simp add: vowel_count_def vowels_def)
  moreover have "wordWithMostVowels [] = []"
    by (simp add: wordWithMostVowels_def)
  ultimately show ?thesis using e by blast
qed

theorem wordWithMostVowels_first_best_witness:
  "wordWithMostVowels ''The Quick Brown Fox'' = ''Quick'' \<and>
   (\<exists>pre post. split_sep CHR '' '' ''The Quick Brown Fox'' = pre @ ''Quick'' # post \<and>
       (\<forall>w\<in>set pre.
           vowel_count w < vowel_count ''Quick'' \<or>
           (vowel_count w = vowel_count ''Quick'' \<and> length w < length ''Quick'')) \<and>
       (\<forall>w\<in>set post.
           vowel_count w < vowel_count ''Quick'' \<or>
           (vowel_count w = vowel_count ''Quick'' \<and> length w \<le> length ''Quick'')))"
proof -
  have v: "wordWithMostVowels ''The Quick Brown Fox'' = ''Quick''"
    by (simp add: wordWithMostVowels_def vowels_def)
  from wordWithMostVowels_first_best [of "''The Quick Brown Fox''"]
  show ?thesis unfolding v by blast
qed

text \<open>
  C2, as stated, fails on a title with a tab: the tab does not separate, so the word
  returned is not one of the words that white space separates.
\<close>

theorem wordWithMostVowels_whitespace_counterexample:
  "wordWithMostVowels [CHR ''a'', CHR 0x09, CHR ''e'', CHR ''e'']
     = [CHR ''a'', CHR 0x09, CHR ''e'', CHR ''e''] \<and>
   words_ws [CHR ''a'', CHR 0x09, CHR ''e'', CHR ''e''] = [''a'', ''ee''] \<and>
   wordWithMostVowels [CHR ''a'', CHR 0x09, CHR ''e'', CHR ''e'']
     \<notin> set (words_ws [CHR ''a'', CHR 0x09, CHR ''e'', CHR ''e''])"
  by (simp add: wordWithMostVowels_def vowels_def words_ws_def whitespace_def)

text \<open>
  C9. When no word of the title has a vowel and some word is not empty, the word
  returned is not empty: it is a word of the title, and no word of the title is
  longer.
\<close>

theorem wordWithMostVowels_no_vowels:
  assumes "\<forall>w\<in>set (split_sep CHR '' '' t). vowel_count w = 0"
    and "\<exists>w\<in>set (split_sep CHR '' '' t). w \<noteq> []"
  shows "t \<noteq> [] \<and> wordWithMostVowels t \<noteq> [] \<and>
         wordWithMostVowels t \<in> set (split_sep CHR '' '' t) \<and>
         vowel_count (wordWithMostVowels t) = 0 \<and>
         (\<forall>w\<in>set (split_sep CHR '' '' t). length w \<le> length (wordWithMostVowels t))"
proof -
  let ?r = "wordWithMostVowels t"
  let ?ws = "split_sep CHR '' '' t"
  obtain pre post where
    e: "?ws = pre @ ?r # post"
    and p: "\<forall>w\<in>set pre. beats ?r w"
    and q: "\<forall>w\<in>set post. \<not> beats w ?r"
    using wordWithMostVowels_position by blast
  have mem: "?r \<in> set ?ws" by (subst e) simp
  with assms(1) have r0: "vowel_count ?r = 0" by blast
  have len: "\<forall>w\<in>set ?ws. length w \<le> length ?r"
  proof
    fix w assume w: "w \<in> set ?ws"
    with assms(1) have w0: "vowel_count w = 0" by blast
    from w e have "w \<in> set pre \<or> w = ?r \<or> w \<in> set post" by (metis Un_iff set_ConsD set_append)
    then show "length w \<le> length ?r"
      using p q w0 r0 by (auto simp: beats_def)
  qed
  from assms(2) obtain w where "w \<in> set ?ws" "w \<noteq> []" by blast
  with len have "length ?r > 0" by (metis length_greater_0_conv less_le_trans)
  then have ne: "?r \<noteq> []" by simp
  have "t \<noteq> []" using assms(2) by auto
  with ne mem r0 len show ?thesis by blast
qed

theorem wordWithMostVowels_no_vowels_witness:
  "split_sep CHR '' '' ''Brr Pfft Hm'' = [''Brr'', ''Pfft'', ''Hm''] \<and>
   map vowel_count [''Brr'', ''Pfft'', ''Hm''] = [0, 0, 0] \<and>
   wordWithMostVowels ''Brr Pfft Hm'' = ''Pfft'' \<and>
   wordWithMostVowels ''Brr Pfft Hm'' \<noteq> [] \<and>
   list_all (\<lambda>w. length w \<le> length (wordWithMostVowels ''Brr Pfft Hm''))
     (split_sep CHR '' '' ''Brr Pfft Hm'')"
proof -
  have h1: "\<forall>w\<in>set (split_sep CHR '' '' ''Brr Pfft Hm''). vowel_count w = 0"
    by (simp add: vowel_count_def vowels_def)
  have h2: "\<exists>w\<in>set (split_sep CHR '' '' ''Brr Pfft Hm''). w \<noteq> []"
    by simp
  have v: "wordWithMostVowels ''Brr Pfft Hm'' = ''Pfft''"
    by (simp add: wordWithMostVowels_def vowels_def)
  have c: "map vowel_count [''Brr'', ''Pfft'', ''Hm''] = [0, 0, 0]"
    by (simp add: vowel_count_def vowels_def)
  have s: "split_sep CHR '' '' ''Brr Pfft Hm'' = [''Brr'', ''Pfft'', ''Hm'']"
    by simp
  from wordWithMostVowels_no_vowels [OF h1 h2] v c s show ?thesis
    by (simp only: list_all_iff) blast
qed

section \<open>Properties of the feed validator\<close>

lemma isValidUrl_JString [simp]:
  "isValidUrl E (JString s) =
     (if s = [] then Inr False
      else if \<not> startsWith s ''http://'' \<and> \<not> startsWith s ''https://'' then Inr False
      else (case urlCtor E s of
              Inr u \<Rightarrow> Inr (isSupportedFeed s)
            | Inl error \<Rightarrow> Inr False))"
  by (simp add: isValidUrl_def split: sum.splits)

lemma isValidUrl_not_string [simp]:
  "typeof v \<noteq> ''string'' \<Longrightarrow> isValidUrl E v = Inr False"
  by (simp add: isValidUrl_def)

lemma isValidUrl_iff:
  "isValidUrl E v = Inr True \<longleftrightarrow>
     (\<exists>s. v = JString s \<and> s \<noteq> [] \<and>
          (startsWith s ''http://'' \<or> startsWith s ''https://'') \<and>
          urlCtor E s = Inr () \<and> s \<in> set supportedRssFeeds)"
  by (cases v) (auto simp: isSupportedFeed_def split: sum.splits)

lemma isValidUrl_cases: "isValidUrl E v = Inr True \<or> isValidUrl E v = Inr False"
  by (cases v) (auto split: sum.splits)

lemma supported_prefix:
  "u \<in> set supportedRssFeeds \<Longrightarrow> u \<noteq> [] \<and> startsWith u ''https://''"
  by (auto simp: supportedRssFeeds_def startsWith_def)

text \<open>
  C7. Provided the \<open>URL\<close> constructor accepts the addresses of the allow-list,
  \<open>isValidUrl\<close> returns true for each of them. It returns false for a value that
  is not a string, for the empty string, for a string that begins with neither
  \<open>http://\<close> nor \<open>https://\<close>, for a string that the \<open>URL\<close> constructor
  refuses, and for a string that is not on the allow-list.
\<close>

theorem isValidUrl_allow_list:
  assumes "\<forall>u\<in>set supportedRssFeeds. urlCtor E u = Inr ()"
  shows "(\<forall>u\<in>set supportedRssFeeds. isValidUrl E (JString u) = Inr True) \<and>
         (\<forall>v. typeof v \<noteq> ''string'' \<longrightarrow> isValidUrl E v = Inr False) \<and>
         isValidUrl E (JString []) = Inr False \<and>
         (\<forall>s. \<not> startsWith s ''http://'' \<and> \<not> startsWith s ''https://''
                \<longrightarrow> isValidUrl E (JString s) = Inr False) \<and>
         (\<forall>s e. urlCtor E s = Inl e \<longrightarrow> isValidUrl E (JString s) = Inr False) \<and>
         (\<forall>s. s \<notin> set supportedRssFeeds \<longrightarrow> isValidUrl E (JString s) = Inr False)"
proof -
  have a: "\<forall>u\<in>set supportedRssFeeds. isValidUrl E (JString u) = Inr True"
    using assms supported_prefix by (simp add: isSupportedFeed_def)
  have b: "\<forall>v. typeof v \<noteq> ''string'' \<longrightarrow> isValidUrl E v = Inr False"
  proof (intro allI impI)
    fix v assume "typeof v \<noteq> ''string''"
    then show "isValidUrl E v = Inr False" by (cases v) simp_all
  qed
  have c: "isValidUrl E (JString []) = Inr False" by simp
  have d: "\<forall>s. \<not> startsWith s ''http://'' \<and> \<not> startsWith s ''https://''
                \<longrightarrow> isValidUrl E (JString s) = Inr False"
    by simp
  have e: "\<forall>s e. urlCtor E s = Inl e \<longrightarrow> isValidUrl E (JString s) = Inr False"
    by auto
  have f: "\<forall>s. s \<notin> set supportedRssFeeds \<longrightarrow> isValidUrl E (JString s) = Inr False"
    by (auto simp: isSupportedFeed_def split: sum.splits)
  from a b c d e f show ?thesis by blast
qed

theorem isValidUrl_allow_list_witness:
  "urlCtor env0 ''https://www.lemonde.fr/rss/une.xml'' = Inr () \<and>
   urlCtor env0 ''https://www.theguardian.com/world/europe-news/rss'' = Inr () \<and>
   isValidUrl env0 (JString ''https://www.lemonde.fr/rss/une.xml'') = Inr True \<and>
   isValidUrl env0 (JString ''https://www.theguardian.com/world/europe-news/rss'') = Inr True \<and>
   isValidUrl env0 (JNumber 3) = Inr False \<and>
   isValidUrl env0 (JString ''//www.lemonde.fr/rss/une.xml'') = Inr False \<and>
   isValidUrl env0 (JString ''http://not a valid URL'') = Inr False \<and>
   isValidUrl env0 (JString ''https://www.theguardian.com/world/world-news/rss'') = Inr False"
proof -
  have h: "\<forall>u\<in>set supportedRssFeeds. urlCtor env0 u = Inr ()"
    by (simp add: supportedRssFeeds_def env0_def)
  have m: "''https://www.lemonde.fr/rss/une.xml'' \<in> set supportedRssFeeds"
      "''https://www.theguardian.com/world/europe-news/rss'' \<in> set supportedRssFeeds"
      "''https://www.theguardian.com/world/world-news/rss'' \<notin> set supportedRssFeeds"
    by (simp_all add: supportedRssFeeds_def)
  have t: "typeof (JNumber 3) \<noteq> ''string''" by simp
  have p: "\<not> startsWith ''//www.lemonde.fr/rss/une.xml'' ''http://'' \<and>
           \<not> startsWith ''//www.lemonde.fr/rss/une.xml'' ''https://''"
    by (simp add: startsWith_def)
  have u: "urlCtor env0 ''http://not a valid URL'' = Inl UrlTypeError"
    by (simp add: env0_def)
  from isValidUrl_allow_list [OF h] h m t p u show ?thesis by blast
qed

text \<open>
  C10. \<open>isValidUrl\<close> returns a boolean for every value and every behaviour of the
  \<open>URL\<close> constructor: no error leaves it.
\<close>

theorem isValidUrl_total: "\<exists>b. isValidUrl E v = Inr b"
  using isValidUrl_cases [of E v] by blast

theorem isValidUrl_total_witness:
  "urlCtor env0 ''http://not a valid URL'' = Inl UrlTypeError \<and>
   (\<exists>b. isValidUrl env0 (JString ''http://not a valid URL'') = Inr b) \<and>
   (\<exists>b. isValidUrl env0 JUndefined = Inr b)"
  using isValidUrl_total [of env0 "JString ''http://not a valid URL''"]
    isValidUrl_total [of env0 JUndefined]
  by (simp add: env0_def)

section \<open>Properties of the import reconciler\<close>

lemmas model_defs =
  import_def self0_def new_RssModule_def env0_def startsWith_def isSupportedFeed_def
  supportedRssFeeds_def saveImportRequest_def runQuery_def insert_imports_def connect_def
  release_def feed_good_def feed_untitled_def entry1_def entry2_def entry_untitled_def
  save_item_def insert_articles_def update_articles_def item_prop_def store0_def Let_def
  get_def select_articles_def varchar500_ok_def

subsection \<open>One entry\<close>

text \<open>
  The three ways an entry goes: it fails a check of the columns and nothing is
  written; it passes and its key is taken, so the rows of that key are rewritten; it
  passes and its key is new, so a row is appended.
\<close>

lemma save_item_bad:
  assumes "\<not> item_ok E self it"
  shows "\<exists>c st'. save_item E self f it st = (Inl (PgError c), st') \<and> c \<noteq> ''23505'' \<and>
           articles st' = articles st \<and> imports_table st' = imports_table st \<and> held st' = held st"
  using assms
  by (auto simp: save_item_def insert_articles_def item_ok_def Let_def split: option.splits)

lemma map_no_match:
  "\<forall>a\<in>set xs. externalId a \<noteq> k \<Longrightarrow>
     map (\<lambda>a. if externalId a = k then g a else a) xs = xs"
  by (induction xs) auto

lemma save_item_update:
  assumes "item_ok E self it" and "item_prop it (primaryKey self) = Some k"
    and "take 500 k \<in> set (externalIds st)"
  shows "\<exists>t d p l st'. item_prop it ''title'' = Some t \<and> item_prop it ''contentSnippet'' = Some d \<and>
           item_prop it ''pubDate'' = Some p \<and> item_prop it ''link'' = Some l \<and>
         save_item E self f it st = (Inr (), st') \<and>
         articles st' = map (\<lambda>a. if externalId a = k
                          then a\<lparr>title := t, description := d, publicationDate := p, link := l,
                                 mainPicture := Some (case image_url it of Some u \<Rightarrow> u | None \<Rightarrow> [])\<rparr>
                          else a) (articles st)"
proof -
  from assms(1,2) obtain t d p l where
    v: "item_prop it ''title'' = Some t" "item_prop it ''contentSnippet'' = Some d"
       "item_prop it ''pubDate'' = Some p" "item_prop it ''link'' = Some l"
       "timestampOk E p" "varchar500_ok k"
    by (auto simp: item_ok_def split: option.splits)
  show ?thesis
  proof (cases "\<exists>a\<in>set (articles st). externalId a = k")
    case True
    with v assms(2,3) show ?thesis
      by (auto simp: save_item_def insert_articles_def update_articles_def Let_def externalIds_def)
  next
    case False
    then have "map (\<lambda>a. if externalId a = k
                          then a\<lparr>title := t, description := d, publicationDate := p, link := l,
                                 mainPicture := Some (case image_url it of Some u \<Rightarrow> u | None \<Rightarrow> [])\<rparr>
                          else a) (articles st) = articles st"
      by (simp add: map_no_match)
    with False v assms(2,3) show ?thesis
      by (auto simp: save_item_def insert_articles_def update_articles_def Let_def externalIds_def)
  qed
qed

lemma save_item_insert:
  assumes "item_ok E self it" and "item_prop it (primaryKey self) = Some k"
    and "take 500 k \<notin> set (externalIds st)"
  shows "\<exists>t d p l. item_prop it ''title'' = Some t \<and> item_prop it ''contentSnippet'' = Some d \<and>
           item_prop it ''pubDate'' = Some p \<and> item_prop it ''link'' = Some l \<and>
         save_item E self f it st =
           (Inr (), st\<lparr>articles_id_seq := articles_id_seq st + 1,
                  articles := articles st @
                     [\<lparr> article_id = articles_id_seq st, externalId = take 500 k,
                        importDate = clock st,
                        title = t, description = d, publicationDate = p, link = l,
                        mainPicture = Some (resolved_picture f it) \<rparr>]\<rparr>)"
  using assms
  by (auto simp: save_item_def insert_articles_def update_articles_def item_ok_def Let_def
        externalIds_def resolved_picture_def split: option.splits)

lemma item_ok_key: "item_ok E self it \<Longrightarrow> \<exists>k. item_prop it (primaryKey self) = Some k"
  by (auto simp: item_ok_def split: option.splits)

lemma externalIds_update:
  "map externalId (map (\<lambda>a. if externalId a = k
        then a\<lparr>title := t, description := d, publicationDate := p, link := l, mainPicture := m\<rparr>
        else a) xs) = map externalId xs"
  by (induction xs) auto

lemma save_item_ids:
  assumes "save_item E self f it st = (r, st')"
  shows "(\<not> item_ok E self it \<and> (\<exists>e. r = Inl e) \<and> externalIds st' = externalIds st) \<or>
         (item_ok E self it \<and> r = Inr () \<and>
            (\<exists>k. item_prop it (primaryKey self) = Some k \<and>
                 externalIds st' = (if take 500 k \<in> set (externalIds st) then externalIds st
                                    else externalIds st @ [take 500 k])))"
proof (cases "item_ok E self it")
  case False
  from save_item_bad [OF False, of f st] assms False show ?thesis
    by (auto simp: externalIds_def)
next
  case True
  then obtain k where k: "item_prop it (primaryKey self) = Some k"
    using item_ok_key by blast
  show ?thesis
  proof (cases "take 500 k \<in> set (externalIds st)")
    case True
    from save_item_update [OF \<open>item_ok E self it\<close> k True, of f] assms
    have "r = Inr () \<and> externalIds st' = externalIds st"
      by (auto simp: externalIds_def externalIds_update)
    with \<open>item_ok E self it\<close> k True show ?thesis by simp
  next
    case False
    from save_item_insert [OF \<open>item_ok E self it\<close> k False, of f] assms
    have "r = Inr () \<and> externalIds st' = externalIds st @ [take 500 k]"
      by (auto simp: externalIds_def)
    with \<open>item_ok E self it\<close> k False show ?thesis by simp
  qed
qed

lemma save_item_frame:
  assumes "save_item E self f it st = (r, st')"
  shows "imports_table st' = imports_table st \<and> held st' = held st \<and> clock st' = clock st \<and>
         imports_id_seq st' = imports_id_seq st"
  using assms
  by (auto simp: save_item_def insert_articles_def update_articles_def Let_def
        split: option.splits if_splits prod.splits sum.splits)

lemma save_items_frame:
  "save_items E self f its st = (r, st') \<Longrightarrow>
     imports_table st' = imports_table st \<and> held st' = held st \<and> clock st' = clock st \<and>
     imports_id_seq st' = imports_id_seq st"
proof (induction its arbitrary: st)
  case Nil
  then show ?case by simp
next
  case (Cons it its)
  obtain r1 st1 where s: "save_item E self f it st = (r1, st1)" by fastforce
  note fr = save_item_frame [OF s]
  show ?case
  proof (cases r1)
    case (Inl e)
    with s Cons.prems fr show ?thesis by simp
  next
    case (Inr u)
    with s Cons.prems have "save_items E self f its st1 = (r, st')" by simp
    from Cons.IH [OF this] fr show ?thesis by simp
  qed
qed

lemma save_items_mono:
  "save_items E self f its st = (r, st') \<Longrightarrow>
     set (externalIds st) \<subseteq> set (externalIds st') \<and>
     (distinct (externalIds st) \<longrightarrow> distinct (externalIds st'))"
proof (induction its arbitrary: st)
  case Nil
  then show ?case by simp
next
  case (Cons it its)
  obtain r1 st1 where s: "save_item E self f it st = (r1, st1)" by fastforce
  from save_item_ids [OF s]
  have step: "set (externalIds st) \<subseteq> set (externalIds st1) \<and>
              (distinct (externalIds st) \<longrightarrow> distinct (externalIds st1))"
    by (auto split: if_splits)
  show ?case
  proof (cases r1)
    case (Inl e)
    with s Cons.prems step show ?thesis by simp
  next
    case (Inr u)
    with s Cons.prems have "save_items E self f its st1 = (r, st')" by simp
    from Cons.IH [OF this] step show ?thesis by blast
  qed
qed

lemma save_items_again:
  "save_items E self f its st = (r, st') \<Longrightarrow>
   set (externalIds st') \<subseteq> set (externalIds st2) \<Longrightarrow>
   save_items E self f its st2 = (r2, st2') \<Longrightarrow>
   externalIds st2' = externalIds st2"
proof (induction its arbitrary: st st2)
  case Nil
  then show ?case by simp
next
  case (Cons it its)
  obtain r1 st1 where s: "save_item E self f it st = (r1, st1)" by fastforce
  obtain q1 sq1 where q: "save_item E self f it st2 = (q1, sq1)" by fastforce
  show ?case
  proof (cases "item_ok E self it")
    case False
    with save_item_ids [OF q] have "(\<exists>e. q1 = Inl e) \<and> externalIds sq1 = externalIds st2" by blast
    with q Cons.prems(3) show ?thesis by auto
  next
    case True
    with save_item_ids [OF s] obtain k where r1: "r1 = Inr ()"
      and k: "item_prop it (primaryKey self) = Some k"
      and k1: "take 500 k \<in> set (externalIds st1)" by (auto split: if_splits)
    from r1 s Cons.prems(1) have rest: "save_items E self f its st1 = (r, st')" by simp
    from save_items_mono [OF rest] k1 Cons.prems(2)
    have k2: "take 500 k \<in> set (externalIds st2)" by blast
    with True k save_item_ids [OF q] have q1: "q1 = Inr ()" and e: "externalIds sq1 = externalIds st2"
      by auto
    from q1 q Cons.prems(3) have rest2: "save_items E self f its sq1 = (r2, st2')" by simp
    from Cons.prems(2) e have "set (externalIds st') \<subseteq> set (externalIds sq1)" by simp
    from Cons.IH [OF rest this rest2] e show ?thesis by simp
  qed
qed

lemma save_item_error_pg: "save_item E self f it st = (Inl e, st') \<Longrightarrow> \<exists>c. e = PgError c"
  using save_item_ids [of E self f it st "Inl e" st'] save_item_bad [of E self it f st] by auto

lemma save_items_error_pg: "save_items E self f its st = (Inl e, st') \<Longrightarrow> \<exists>c. e = PgError c"
proof (induction its arbitrary: st)
  case Nil
  then show ?case by simp
next
  case (Cons it its)
  obtain r1 st1 where s: "save_item E self f it st = (r1, st1)" by fastforce
  show ?case
  proof (cases r1)
    case (Inl e1)
    with s Cons.prems have "e = e1" by simp
    with s Inl save_item_error_pg show ?thesis by blast
  next
    case (Inr u)
    with s Cons.prems have "save_items E self f its st1 = (Inl e, st')" by simp
    from Cons.IH [OF this] show ?thesis .
  qed
qed

subsection \<open>A whole import\<close>

lemma runQuery_insert_imports:
  "runQuery (insert_imports f) st =
     (Inr [], st\<lparr>imports_table := imports_table st @
                   [\<lparr> import_id = imports_id_seq st, import_importDate = clock st,
                      rawContent = f \<rparr>],
                 imports_id_seq := imports_id_seq st + 1\<rparr>)"
  by (simp add: runQuery_def insert_imports_def connect_def release_def)

lemma saveImportRequest_shape:
  assumes "saveImportRequest E self f st = (r, st')"
  shows "(items f = None \<and> r = Inl NoItemsError \<and> articles st' = articles st \<and> held st' = held st) \<or>
         (\<exists>its r2 st2. items f = Some its \<and> externalIds st2 = externalIds st' \<and>
             save_items E self f its (connect (snd (runQuery (insert_imports f) st))) = (r2, st2) \<and>
             articles st' = articles st2 \<and>
             (case r2 of Inl e \<Rightarrow> r = Inl e \<and> st' = st2 | Inr u \<Rightarrow> r = Inr f \<and> st' = release st2))"
  using assms
  by (auto simp: saveImportRequest_def runQuery_insert_imports Let_def release_def externalIds_def
        split: option.splits sum.splits prod.splits)

lemma saveImportRequest_again:
  assumes u: "distinct (externalIds st0)"
    and a: "saveImportRequest E self f st0 = (r1, st1)"
    and e: "articles st1' = articles st1"
    and b: "saveImportRequest E self f st1' = (r2, st2)"
  shows "externalIds st2 = externalIds st1 \<and> distinct (externalIds st1)"
proof (cases "items f")
  case None
  with saveImportRequest_shape [OF a] saveImportRequest_shape [OF b] e u
  show ?thesis by (auto simp: externalIds_def)
next
  case (Some its)
  let ?s0 = "connect (snd (runQuery (insert_imports f) st0))"
  let ?s1 = "connect (snd (runQuery (insert_imports f) st1'))"
  from Some saveImportRequest_shape [OF a] obtain q1 sA where
    A: "save_items E self f its ?s0 = (q1, sA)" and A': "articles st1 = articles sA" by auto
  from Some saveImportRequest_shape [OF b] obtain q2 sB where
    B: "save_items E self f its ?s1 = (q2, sB)" and B': "articles st2 = articles sB" by auto
  have i0: "externalIds ?s0 = externalIds st0"
    by (simp add: runQuery_insert_imports connect_def externalIds_def)
  have i1: "externalIds ?s1 = externalIds st1"
    by (simp add: runQuery_insert_imports connect_def externalIds_def e)
  have iA: "externalIds sA = externalIds st1" by (simp add: externalIds_def A')
  from save_items_mono [OF A] u i0 iA have d: "distinct (externalIds st1)" by simp
  have "set (externalIds sA) \<subseteq> set (externalIds ?s1)" by (simp add: i1 iA)
  from save_items_again [OF A this B] have "externalIds sB = externalIds ?s1" .
  with i1 B' have "externalIds st2 = externalIds st1" by (simp add: externalIds_def)
  with d show ?thesis by simp
qed

lemma import_saves:
  assumes "isValidUrl E (JString u) = Inr True" and "parseURL E u = Inr f"
  shows "import E self (Some u) True st = (Inr f, snd (saveImportRequest E self f st))"
proof -
  from assms(1) have "u \<noteq> []" by (auto simp: isValidUrl_iff)
  with assms show ?thesis by (simp add: import_def split: prod.splits)
qed

lemma import_shape:
  "(\<exists>x. \<forall>st. import E self u save st = (x, st)) \<or>
   (\<exists>f. \<forall>st. import E self u save st = (Inr f, snd (saveImportRequest E self f st)))"
proof -
  define url1 where "url1 = (case u of Some v \<Rightarrow> if v \<noteq> [] then v else url self | None \<Rightarrow> url self)"
  show ?thesis
  proof (cases "isValidUrl E (JString url1) = Inr True \<and> save \<and> (\<exists>f. parseURL E url1 = Inr f)")
    case True
    then obtain f where "parseURL E url1 = Inr f" by blast
    with True have "\<forall>st. import E self u save st = (Inr f, snd (saveImportRequest E self f st))"
      by (auto simp: import_def url1_def Let_def split: prod.splits)
    then show ?thesis by blast
  next
    case False
    then have "\<exists>x. \<forall>st. import E self u save st = (x, st)"
      using isValidUrl_cases [of E "JString url1"]
      by (cases "parseURL E url1") (auto simp: import_def url1_def Let_def split: sum.splits)
    then show ?thesis by blast
  qed
qed

text \<open>
  C1. Two imports of the same address in the same environment, so of the same feed
  content, with whatever happens to the clock, the sequences and the ledger in
  between: when the external ids are unique before the first import, they are
  unique after each import, and the second import leaves the number of articles as
  the first one left it.
\<close>

theorem reimport_no_new_rows:
  assumes "unique_externalId st0"
    and "import E self u save st0 = (r1, st1)"
    and "articles st1' = articles st1"
    and "import E self u save st1' = (r2, st2)"
  shows "length (articles st2) = length (articles st1) \<and>
         unique_externalId st1 \<and> unique_externalId st2"
proof -
  from import_shape [of E self u save]
  have "externalIds st2 = externalIds st1 \<and> distinct (externalIds st1)"
  proof
    assume "\<exists>x. \<forall>st. import E self u save st = (x, st)"
    with assms show ?thesis by (auto simp: unique_externalId_def externalIds_def)
  next
    assume "\<exists>f. \<forall>st. import E self u save st = (Inr f, snd (saveImportRequest E self f st))"
    then obtain f where f: "\<And>st. import E self u save st = (Inr f, snd (saveImportRequest E self f st))"
      by blast
    from f [of st0] assms(2) have a: "saveImportRequest E self f st0 = (fst (saveImportRequest E self f st0), st1)"
      by (metis prod.collapse snd_conv)
    from f [of st1'] assms(4) have b: "saveImportRequest E self f st1' = (fst (saveImportRequest E self f st1'), st2)"
      by (metis prod.collapse snd_conv)
    from assms(1) have "distinct (externalIds st0)" by (simp add: unique_externalId_def externalIds_def)
    from saveImportRequest_again [OF this a assms(3) b] show ?thesis .
  qed
  then have "length (externalIds st2) = length (externalIds st1)" "distinct (externalIds st1)" "distinct (externalIds st2)"
    by simp_all
  then show ?thesis by (simp add: unique_externalId_def externalIds_def)
qed

theorem reimport_no_new_rows_witness:
  "unique_externalId store0 \<and>
   length (articles (snd (import env0 self0 (Some ''https://www.lemonde.fr/rss/une.xml'') True store0))) = 2 \<and>
   length (articles (snd (import env0 self0 (Some ''https://www.lemonde.fr/rss/une.xml'') True
      (snd (import env0 self0 (Some ''https://www.lemonde.fr/rss/une.xml'') True store0))))) = 2 \<and>
   unique_externalId (snd (import env0 self0 (Some ''https://www.lemonde.fr/rss/une.xml'') True store0)) \<and>
   unique_externalId (snd (import env0 self0 (Some ''https://www.lemonde.fr/rss/une.xml'') True
      (snd (import env0 self0 (Some ''https://www.lemonde.fr/rss/une.xml'') True store0))))"
proof -
  let ?u = "Some ''https://www.lemonde.fr/rss/une.xml''"
  let ?X = "import env0 self0 ?u True store0"
  let ?Y = "import env0 self0 ?u True (snd ?X)"
  have h0: "unique_externalId store0" by (simp add: unique_externalId_def store0_def)
  have h1: "?X = (fst ?X, snd ?X)" by simp
  have h2: "articles (snd ?X) = articles (snd ?X)" by simp
  have h3: "?Y = (fst ?Y, snd ?Y)" by simp
  have n: "length (articles (snd ?X)) = 2" by (simp add: model_defs)
  from reimport_no_new_rows [OF h0 h1 h2 h3] h0 n show ?thesis by simp
qed

lemma import_returns_feed:
  assumes "import E self url0 True st = (Inr f, st')"
  shows "snd (saveImportRequest E self f st) = st'"
  using assms
  by (auto simp: import_def Let_def split: sum.splits if_splits prod.splits)

text \<open>
  C5. For an import with \<open>save\<close> enabled that has its parsed result (the address
  was valid and the feed parsed; otherwise the import fails and writes nothing):
  the ledger row with the parsed result is written first, on a state whose articles
  are untouched; the ledger of the final state is the ledger after that one row; a
  result without items makes the save fail with the no-items error from exactly
  that state; and otherwise the entries are processed from that state, so whatever
  their outcome the row is there.
\<close>

theorem import_ledger_first:
  assumes "import E self url0 True st = (Inr f, st')"
  shows "\<exists>st1 saved.
           runQuery (insert_imports f) st = (Inr [], st1) \<and>
           imports_table st1 = imports_table st @
             [\<lparr> import_id = imports_id_seq st, import_importDate = clock st, rawContent = f \<rparr>] \<and>
           articles st1 = articles st \<and>
           saveImportRequest E self f st = (saved, st') \<and>
           imports_table st' = imports_table st1 \<and>
           (case items f of
              None \<Rightarrow> saved = Inl NoItemsError \<and> st' = st1
            | Some its \<Rightarrow>
                saved \<noteq> Inl NoItemsError \<and>
                (\<exists>r2 st2. save_items E self f its (connect st1) = (r2, st2) \<and>
                    articles st' = articles st2 \<and>
                    (case r2 of Inl e \<Rightarrow> saved = Inl e | Inr x \<Rightarrow> saved = Inr f)))"
proof -
  let ?st1 = "st\<lparr>imports_table := imports_table st @
                   [\<lparr> import_id = imports_id_seq st, import_importDate = clock st,
                      rawContent = f \<rparr>],
                 imports_id_seq := imports_id_seq st + 1\<rparr>"
  from import_returns_feed [OF assms]
  obtain saved where s: "saveImportRequest E self f st = (saved, st')"
    by (metis prod.collapse)
  have q: "runQuery (insert_imports f) st = (Inr [], ?st1)" by (rule runQuery_insert_imports)
  have rest: "imports_table st' = imports_table ?st1 \<and>
           (case items f of
              None \<Rightarrow> saved = Inl NoItemsError \<and> st' = ?st1
            | Some its \<Rightarrow>
                saved \<noteq> Inl NoItemsError \<and>
                (\<exists>r2 st2. save_items E self f its (connect ?st1) = (r2, st2) \<and>
                    articles st' = articles st2 \<and>
                    (case r2 of Inl e \<Rightarrow> saved = Inl e | Inr x \<Rightarrow> saved = Inr f)))"
  proof (cases "items f")
    case None
    with s show ?thesis by (simp add: saveImportRequest_def q)
  next
    case (Some its)
    obtain r2 st2 where l: "save_items E self f its (connect ?st1) = (r2, st2)" by fastforce
    from save_items_frame [OF l] have t: "imports_table st2 = imports_table ?st1"
      by (simp add: connect_def)
    show ?thesis
    proof (cases r2)
      case (Inl e)
      with l save_items_error_pg obtain c where "e = PgError c" by blast
      with Inl l s Some t show ?thesis by (auto simp: saveImportRequest_def q)
    next
      case (Inr x)
      with l s Some t show ?thesis by (auto simp: saveImportRequest_def q release_def)
    qed
  qed
  show ?thesis
    apply (rule exI [of _ ?st1], rule exI [of _ saved])
    using q s rest by simp
qed

theorem import_ledger_first_witness:
  "fst (import env0 self0 (Some ''https://www.theguardian.com/world/europe-news/rss'') True store0)
     = Inr feed_untitled \<and>
   fst (saveImportRequest env0 self0 feed_untitled store0) = Inl (PgError ''23502'') \<and>
   imports_table (snd (import env0 self0
       (Some ''https://www.theguardian.com/world/europe-news/rss'') True store0)) =
     [\<lparr> import_id = 1, import_importDate = 0, rawContent = feed_untitled \<rparr>]"
proof -
  let ?X = "import env0 self0 (Some ''https://www.theguardian.com/world/europe-news/rss'') True store0"
  have v0: "fst ?X = Inr feed_untitled" by (simp add: model_defs)
  then have h: "?X = (Inr feed_untitled, snd ?X)" by (metis prod.collapse)
  have v: "fst (saveImportRequest env0 self0 feed_untitled store0) = Inl (PgError ''23502'')"
    by (simp add: model_defs)
  from import_ledger_first [OF h] obtain st1 :: store where
    a: "imports_table st1 = imports_table store0 @
          [\<lparr> import_id = imports_id_seq store0, import_importDate = clock store0,
             rawContent = feed_untitled \<rparr>]"
    and c: "imports_table (snd ?X) = imports_table st1"
    by blast
  from a c have "imports_table (snd ?X) =
     [\<lparr> import_id = 1, import_importDate = 0, rawContent = feed_untitled \<rparr>]"
    by (simp add: store0_def)
  with v0 v show ?thesis by simp
qed

text \<open>
  C6. An entry whose key is the external id of a row (so at most 500 long, as the
  column is): the number of rows stays, every row keeps its id, its external id and
  its import date, every row of another external id stays as it is, and when the
  entry is written a row of its external id is the row it was with title,
  description, publication date and link set to those of the entry and the main
  picture set anew. The entry is written exactly when it passes the checks of the
  columns; otherwise no row changes.
\<close>

theorem update_keeps_identity:
  assumes "item_prop it (primaryKey self) = Some k"
    and "k \<in> set (externalIds st)" and "length k \<le> 500"
    and "save_item E self f it st = (r, st')"
  shows "length (articles st') = length (articles st) \<and>
         (\<forall>i<length (articles st).
            article_id (articles st' ! i) = article_id (articles st ! i) \<and>
            externalId (articles st' ! i) = externalId (articles st ! i) \<and>
            importDate (articles st' ! i) = importDate (articles st ! i) \<and>
            (externalId (articles st ! i) \<noteq> k \<longrightarrow> articles st' ! i = articles st ! i) \<and>
            (externalId (articles st ! i) = k \<and> r = Inr () \<longrightarrow>
               (\<exists>t d p l m.
                  item_prop it ''title'' = Some t \<and>
                  item_prop it ''contentSnippet'' = Some d \<and>
                  item_prop it ''pubDate'' = Some p \<and>
                  item_prop it ''link'' = Some l \<and>
                  articles st' ! i =
                    (articles st ! i)\<lparr>title := t, description := d, publicationDate := p,
                                          link := l, mainPicture := m\<rparr>))) \<and>
         (r = Inr () \<longleftrightarrow> item_ok E self it) \<and>
         (r \<noteq> Inr () \<longrightarrow> articles st' = articles st)"
proof (cases "item_ok E self it")
  case False
  from save_item_bad [OF False, of f st] assms(4) False show ?thesis by auto
next
  case True
  from assms(2,3) have "take 500 k \<in> set (externalIds st)" by simp
  from save_item_update [OF True assms(1) this, of f] assms(4) True show ?thesis by auto
qed

theorem update_keeps_identity_witness:
  "item_prop entry1 (primaryKey self0) = Some ''g1'' \<and>
   ''g1'' \<in> set (externalIds (snd (saveImportRequest env0 self0 feed_good store0))) \<and>
   fst (save_item env0 self0 feed_good (entry1\<lparr>props := (''title'', ''Autre titre'') # props entry1\<rparr>)
          (snd (saveImportRequest env0 self0 feed_good store0))) = Inr () \<and>
   map article_id (articles (snd (save_item env0 self0 feed_good
          (entry1\<lparr>props := (''title'', ''Autre titre'') # props entry1\<rparr>)
          (snd (saveImportRequest env0 self0 feed_good store0))))) = [1, 2] \<and>
   map title (articles (snd (save_item env0 self0 feed_good
          (entry1\<lparr>props := (''title'', ''Autre titre'') # props entry1\<rparr>)
          (snd (saveImportRequest env0 self0 feed_good store0))))) = [''Autre titre'', ''Deux mots''] \<and>
   length (articles (snd (save_item env0 self0 feed_good
          (entry1\<lparr>props := (''title'', ''Autre titre'') # props entry1\<rparr>)
          (snd (saveImportRequest env0 self0 feed_good store0))))) =
     length (articles (snd (saveImportRequest env0 self0 feed_good store0)))"
proof -
  let ?it = "entry1\<lparr>props := (''title'', ''Autre titre'') # props entry1\<rparr>"
  let ?st = "snd (saveImportRequest env0 self0 feed_good store0)"
  let ?X = "save_item env0 self0 feed_good ?it ?st"
  have h1: "item_prop ?it (primaryKey self0) = Some ''g1''" by (simp add: model_defs)
  have h1': "item_prop entry1 (primaryKey self0) = Some ''g1''" by (simp add: model_defs)
  have h2: "''g1'' \<in> set (externalIds ?st)" by (simp add: model_defs externalIds_def)
  have h3: "?X = (fst ?X, snd ?X)" by simp
  have h4: "length ''g1'' \<le> 500" by simp
  have v1: "fst ?X = Inr ()" by (simp add: model_defs)
  have v2: "map article_id (articles (snd ?X)) = [1, 2]" by (simp add: model_defs)
  have v3: "map title (articles (snd ?X)) = [''Autre titre'', ''Deux mots'']" by (simp add: model_defs)
  from update_keeps_identity [OF h1 h2 h4 h3] h1' h2 v1 v2 v3 show ?thesis by simp
qed

subsection \<open>Failures\<close>

lemma save_items_append_fail:
  "save_items E self f pre st = (Inr (), st1) \<Longrightarrow>
   save_item E self f it st1 = (Inl e, st2) \<Longrightarrow>
   save_items E self f (pre @ it # post) st = (Inl e, st2)"
proof (induction pre arbitrary: st)
  case Nil
  then show ?case by simp
next
  case (Cons a pre)
  obtain r1 s1 where s: "save_item E self f a st = (r1, s1)" by fastforce
  show ?case
  proof (cases r1)
    case (Inl x)
    with s Cons.prems(1) show ?thesis by simp
  next
    case (Inr u)
    with s Cons.prems(1) have "save_items E self f pre s1 = (Inr (), st1)" by simp
    from Cons.IH [OF this Cons.prems(2)] s Inr show ?thesis by simp
  qed
qed

lemma save_item_rethrows:
  assumes "insert_articles E (item_prop it (primaryKey self)) (clock st) (item_prop it ''title'')
             (item_prop it ''contentSnippet'') (item_prop it ''pubDate'') (item_prop it ''link'')
             p7 st = (Inl e, st')"
    and "error_code e \<noteq> Some ''23505''"
  shows "save_item E self f it st = (Inl e, st')"
proof -
  have "\<And>q7. fst (insert_articles E (item_prop it (primaryKey self)) (clock st) (item_prop it ''title'')
             (item_prop it ''contentSnippet'') (item_prop it ''pubDate'') (item_prop it ''link'')
             q7 st) = Inl e \<and> snd (insert_articles E (item_prop it (primaryKey self)) (clock st) (item_prop it ''title'')
             (item_prop it ''contentSnippet'') (item_prop it ''pubDate'') (item_prop it ''link'')
             q7 st) = st'"
    using assms by (auto simp: insert_articles_def Let_def split: option.splits if_splits)
  from this [of "Some (case image_url it of
                      Some u \<Rightarrow> u
                    | None \<Rightarrow> (case feed_image_url f of Some u \<Rightarrow> u | None \<Rightarrow> []))"]
  have "insert_articles E (item_prop it (primaryKey self)) (clock st) (item_prop it ''title'')
             (item_prop it ''contentSnippet'') (item_prop it ''pubDate'') (item_prop it ''link'')
             (Some (case image_url it of
                      Some u \<Rightarrow> u
                    | None \<Rightarrow> (case feed_image_url f of Some u \<Rightarrow> u | None \<Rightarrow> [])))
             st = (Inl e, st')"
    by (metis prod.collapse)
  then show ?thesis using assms(2)
    by (simp add: save_item_def)
qed

text \<open>
  C4, as amended. When the entries before some entry have been written and the
  insert of that entry fails with an error whose code is not \<open>23505\<close> (whatever
  the picture), \<open>saveImportRequest\<close> fails with that error in the state of the
  failure: the articles are those written before, the entries after it are not
  processed. The caller of \<open>import\<close> does not see the error: \<open>import\<close> returns
  the parsed feed.
\<close>

theorem storage_failure_stops_save_not_import:
  assumes "isValidUrl E (JString u) = Inr True" and "parseURL E u = Inr f"
    and "items f = Some (pre @ it # post)"
    and "save_items E self f pre (connect (snd (runQuery (insert_imports f) st))) = (Inr (), st1)"
    and "insert_articles E (item_prop it (primaryKey self)) (clock st1) (item_prop it ''title'')
             (item_prop it ''contentSnippet'') (item_prop it ''pubDate'') (item_prop it ''link'')
             p7 st1 = (Inl e, st2)"
    and "error_code e \<noteq> Some ''23505''"
  shows "saveImportRequest E self f st = (Inl e, st2) \<and>
         import E self (Some u) True st = (Inr f, st2) \<and>
         articles st2 = articles st1"
proof -
  from save_item_rethrows [OF assms(5,6)]
  have "save_item E self f it st1 = (Inl e, st2)" .
  from save_items_append_fail [OF assms(4) this]
  have "save_items E self f (pre @ it # post) (connect (snd (runQuery (insert_imports f) st)))
          = (Inl e, st2)" .
  with assms(3) have s: "saveImportRequest E self f st = (Inl e, st2)"
    by (simp add: saveImportRequest_def runQuery_insert_imports)
  with import_saves [OF assms(1,2), of self st]
  have i: "import E self (Some u) True st = (Inr f, st2)" by simp
  from assms(5) have "articles st2 = articles st1"
    by (auto simp: insert_articles_def Let_def split: if_splits option.splits)
  with s i show ?thesis by simp
qed

theorem storage_failure_stops_save_not_import_witness:
  "saveImportRequest env0 self0 feed_untitled store0 =
     (Inl (PgError ''23502''),
      snd (import env0 self0 (Some ''https://www.theguardian.com/world/europe-news/rss'') True store0)) \<and>
   map externalId (articles (snd (import env0 self0
       (Some ''https://www.theguardian.com/world/europe-news/rss'') True store0))) = [''g1'']"
proof -
  let ?u = "''https://www.theguardian.com/world/europe-news/rss''"
  let ?s = "connect (snd (runQuery (insert_imports feed_untitled) store0))"
  let ?A = "save_items env0 self0 feed_untitled [entry1] ?s"
  let ?I = "insert_articles env0 (item_prop entry_untitled (primaryKey self0)) (clock (snd ?A))
              (item_prop entry_untitled ''title'') (item_prop entry_untitled ''contentSnippet'')
              (item_prop entry_untitled ''pubDate'') (item_prop entry_untitled ''link'')
              None (snd ?A)"
  have h1: "isValidUrl env0 (JString ?u) = Inr True" by (simp add: model_defs)
  have h2: "parseURL env0 ?u = Inr feed_untitled" by (simp add: env0_def)
  have h3: "items feed_untitled = Some ([entry1] @ entry_untitled # [entry2])"
    by (simp add: feed_untitled_def)
  have h4: "?A = (Inr (), snd ?A)" by (simp add: model_defs)
  have h5: "?I = (Inl (PgError ''23502''), snd ?I)" by (simp add: model_defs)
  have h6: "error_code (PgError ''23502'') \<noteq> Some ''23505''" by simp
  have v: "map externalId (articles (snd ?A)) = [''g1'']" by (simp add: model_defs)
  from storage_failure_stops_save_not_import [OF h1 h2 h3 h4 h5 h6] v show ?thesis by simp
qed

text \<open>
  C4, as stated, fails: the feed whose second entry has no title makes the insert
  fail on a \<open>NOT NULL\<close> column, the save fails with that error, and \<open>import\<close>
  returns the parsed feed as it does on success.
\<close>

theorem import_hides_storage_failure_counterexample:
  "fst (saveImportRequest env0 self0 feed_untitled store0) = Inl (PgError ''23502'') \<and>
   fst (import env0 self0 (Some ''https://www.theguardian.com/world/europe-news/rss'') True store0)
     = Inr feed_untitled"
  by (simp add: model_defs)

subsection \<open>The client of the import loop, and the picture on the update path\<close>

lemma runQuery_held:
  "held (snd (query (connect st))) = held (connect st) \<Longrightarrow> held (snd (runQuery query st)) = held st"
  by (auto simp: runQuery_def release_def connect_def Let_def split: prod.splits sum.splits)

text \<open>
  The save holds one client more after it than before it exactly when it fails with
  a database error, which only the loop over the entries can raise.
\<close>

lemma saveImportRequest_held:
  assumes "saveImportRequest E self f st = (r, st')"
  shows "held st' = (if (\<exists>c. r = Inl (PgError c)) then held st + 1 else held st)"
proof (cases "items f")
  case None
  with assms show ?thesis by (auto simp: saveImportRequest_def runQuery_insert_imports)
next
  case (Some its)
  let ?s = "connect (snd (runQuery (insert_imports f) st))"
  obtain r2 st2 where l: "save_items E self f its ?s = (r2, st2)" by fastforce
  from save_items_frame [OF l] have h: "held st2 = held st + 1"
    by (simp add: runQuery_insert_imports connect_def)
  have "saveImportRequest E self f st =
          (case r2 of Inl e \<Rightarrow> (Inl e, st2) | Inr u \<Rightarrow> (Inr f, release st2))"
    using Some l by (simp add: saveImportRequest_def runQuery_insert_imports)
  with assms have sir: "(r, st') = (case r2 of Inl e \<Rightarrow> (Inl e, st2) | Inr u \<Rightarrow> (Inr f, release st2))"
    by simp
  show ?thesis
  proof (cases r2)
    case (Inl e)
    with l save_items_error_pg obtain c where "e = PgError c" by blast
    with Inl sir h show ?thesis by simp
  next
    case (Inr x)
    with sir h show ?thesis by (simp add: release_def)
  qed
qed

lemma get_held: "held (snd (get st)) = held st"
  by (simp add: get_def runQuery_def select_articles_def connect_def release_def)

text \<open>
  C8. The read and the ledger write go through \<open>runQuery\<close> and give their client
  back. The import loop does not on its error path: on the feed whose second entry
  has no title, the save fails and one client more is held after the call than
  before it, also after the \<open>import\<close> that made the call.
\<close>

theorem saveImportRequest_keeps_client_on_error:
  "fst (saveImportRequest env0 self0 feed_untitled store0) = Inl (PgError ''23502'') \<and>
   held store0 = 0 \<and>
   held (snd (saveImportRequest env0 self0 feed_untitled store0)) = 1 \<and>
   held (snd (import env0 self0 (Some ''https://www.theguardian.com/world/europe-news/rss'') True
                store0)) = 1 \<and>
   held (snd (saveImportRequest env0 self0 feed_good store0)) = 0 \<and>
   held (snd (get store0)) = 0"
  by (simp add: model_defs)

text \<open>
  C3. On the insert path the picture written is the resolved one. On the update
  path the image of the feed is not consulted: importing the feed with a feed-level
  image twice writes that image for the first entry the first time and the empty
  string the second time.
\<close>

theorem update_path_drops_feed_image:
  "image_url entry1 = None \<and>
   resolved_picture feed_good entry1 = ''https://f/img'' \<and>
   map mainPicture (articles (snd (import env0 self0
       (Some ''https://www.lemonde.fr/rss/une.xml'') True store0)))
     = [Some ''https://f/img'', Some ''https://i/2''] \<and>
   map mainPicture (articles (snd (import env0 self0
       (Some ''https://www.lemonde.fr/rss/une.xml'') True
       (snd (import env0 self0 (Some ''https://www.lemonde.fr/rss/une.xml'') True store0)))))
     = [Some [], Some ''https://i/2'']"
  by (simp add: model_defs resolved_picture_def)

end
